theory Spec2Isabelle
  imports Main "HOL-Library.Word"
begin

unbundle bit_operations_syntax

section \<open>The accumulator boundary: \<^verbatim>\<open>hash.Hash64\<close>, CRC-64 and FNV-64\<close>

text \<open>
  The walker writes bytes into a \<^verbatim>\<open>hash.Hash64\<close> and reads one 64-bit sum at the end.
  A \<^verbatim>\<open>hash.Hash64\<close> is an object with hidden state; it is modelled as a codatatype whose
  observations are the three methods the library calls: \<^verbatim>\<open>Sum64\<close>, \<^verbatim>\<open>Write\<close> (which, by
  the contract of package \<^verbatim>\<open>hash\<close>, never returns an error) and \<^verbatim>\<open>Reset\<close>. Any
  caller-supplied hasher is a value of this type.
\<close>

type_synonym byte = "8 word"
type_synonym uint64 = "64 word"

codatatype Hash64 =
  Hash64 (Sum64: uint64) (Write: "byte list \<Rightarrow> Hash64") (Reset: Hash64)

text \<open>
  \<^verbatim>\<open>hash/crc64\<close> of the Go standard library, with the ECMA polynomial: \<^verbatim>\<open>MakeTable\<close> fills
  entry \<open>i\<close> by eight shift-and-xor steps, \<^verbatim>\<open>update\<close> complements the running value,
  consumes the bytes through the table and complements again; \<^verbatim>\<open>New\<close> starts at 0.
\<close>

definition ECMA :: uint64 where
  "ECMA = 0xC96C5795D7870F42"

definition table_step :: "uint64 \<Rightarrow> uint64" where
  "table_step crc = (if crc AND 1 = 1 then drop_bit 1 crc XOR ECMA else drop_bit 1 crc)"

fun table_loop :: "nat \<Rightarrow> uint64 \<Rightarrow> uint64" where
  "table_loop 0 crc = crc"
| "table_loop (Suc j) crc = table_loop j (table_step crc)"

definition table_entry :: "byte \<Rightarrow> uint64" where
  "table_entry i = table_loop 8 (ucast i)"

definition crc_byte :: "uint64 \<Rightarrow> byte \<Rightarrow> uint64" where
  "crc_byte crc v = table_entry (ucast crc XOR v) XOR drop_bit 8 crc"

definition crc64_update :: "uint64 \<Rightarrow> byte list \<Rightarrow> uint64" where
  "crc64_update crc p = NOT (foldl crc_byte (NOT crc) p)"

primcorec crc64_digest :: "uint64 \<Rightarrow> Hash64" where
  "crc64_digest c = Hash64 c (\<lambda>p. crc64_digest (crc64_update c p)) (crc64_digest 0)"

definition crc64_New :: Hash64 where
  "crc64_New = crc64_digest 0"

text \<open>
  \<^verbatim>\<open>hash/fnv\<close>: \<^verbatim>\<open>New64\<close> is FNV-1 (multiply by the prime, then xor the byte), starting
  from the offset basis.
\<close>

definition offset64 :: uint64 where
  "offset64 = 14695981039346656037"

definition prime64 :: uint64 where
  "prime64 = 1099511628211"

definition fnv_byte :: "uint64 \<Rightarrow> byte \<Rightarrow> uint64" where
  "fnv_byte h c = (h * prime64) XOR ucast c"

primcorec sum64 :: "uint64 \<Rightarrow> Hash64" where
  "sum64 s = Hash64 s (\<lambda>data. sum64 (foldl fnv_byte s data)) (sum64 offset64)"

definition fnv_New64 :: Hash64 where
  "fnv_New64 = sum64 offset64"

section \<open>Reflected values\<close>

text \<open>
  \<^verbatim>\<open>reflect.Kind\<close> with the numbering of package \<^verbatim>\<open>reflect\<close>; the walker compares kinds
  numerically (\<^verbatim>\<open>k >= reflect.Int && k <= reflect.Complex64\<close>).
\<close>

datatype kind = KInvalid | KBool | KInt | KInt8 | KInt16 | KInt32 | KInt64
  | KUint | KUint8 | KUint16 | KUint32 | KUint64 | KUintptr
  | KFloat32 | KFloat64 | KComplex64 | KComplex128
  | KArray | KChan | KFunc | KInterface | KMap | KPtr | KSlice | KString | KStruct
  | KUnsafePointer

fun kind_num :: "kind \<Rightarrow> nat" where
  "kind_num KInvalid = 0" | "kind_num KBool = 1" | "kind_num KInt = 2"
| "kind_num KInt8 = 3" | "kind_num KInt16 = 4" | "kind_num KInt32 = 5"
| "kind_num KInt64 = 6" | "kind_num KUint = 7" | "kind_num KUint8 = 8"
| "kind_num KUint16 = 9" | "kind_num KUint32 = 10" | "kind_num KUint64 = 11"
| "kind_num KUintptr = 12" | "kind_num KFloat32 = 13" | "kind_num KFloat64 = 14"
| "kind_num KComplex64 = 15" | "kind_num KComplex128 = 16" | "kind_num KArray = 17"
| "kind_num KChan = 18" | "kind_num KFunc = 19" | "kind_num KInterface = 20"
| "kind_num KMap = 21" | "kind_num KPtr = 22" | "kind_num KSlice = 23"
| "kind_num KString = 24" | "kind_num KStruct = 25" | "kind_num KUnsafePointer = 26"

text \<open>
  What \<^verbatim>\<open>reflect\<close> reports about field \<open>i\<close> of a struct: \<^verbatim>\<open>t.Field(i).Name\<close>, the
  key/value pairs of \<^verbatim>\<open>t.Field(i).Tag\<close>, \<^verbatim>\<open>v.Field(i).CanSet()\<close>, and the members
  \<^verbatim>\<open>PkgPath\<close> (empty exactly for an exported field) and \<^verbatim>\<open>Anonymous\<close> (an embedded field)
  of \<^verbatim>\<open>reflect.StructField\<close>.
\<close>

record StructField =
  Name :: string
  Tag :: "(string \<times> string) list"
  CanSet :: bool
  PkgPath :: string
  Anonymous :: bool


text \<open>
  The data a \<^verbatim>\<open>reflect.Value\<close> refers to. \<open>VInvalid\<close> is the zero Value (what \<^verbatim>\<open>Elem\<close> of
  a nil interface and \<^verbatim>\<open>Indirect\<close> of a nil pointer return). \<open>VInt\<close> and \<open>VUint\<close> are the
  platform-sized \<^verbatim>\<open>int\<close> and \<^verbatim>\<open>uint\<close>, carried as the 64-bit number \<^verbatim>\<open>v.Int()\<close> /
  \<^verbatim>\<open>v.Uint()\<close> returns. Floats carry their IEEE bit pattern, which is what \<^verbatim>\<open>binary.Write\<close>
  emits. A map carries its entries in the order in which \<^verbatim>\<open>MapKeys\<close> enumerates them on
  this call: the Go runtime is free to choose any order, so one Go map corresponds to
  every permutation of the list. A struct carries the name of its nominal type and its
  fields in declaration order. Pointers, channels, functions and unsafe pointers carry an
  identity, so that two pointers to equal contents are two distinct map keys. Float keys
  of maps are assumed not to be NaN.
\<close>

datatype "value" =
    VInvalid
  | VBool bool
  | VInt "64 word" | VInt8 "8 word" | VInt16 "16 word" | VInt32 "32 word" | VInt64 "64 word"
  | VUint "64 word" | VUint8 "8 word" | VUint16 "16 word" | VUint32 "32 word" | VUint64 "64 word"
  | VUintptr "64 word"
  | VFloat32 "32 word" | VFloat64 "64 word"
  | VComplex64 "32 word" "32 word" | VComplex128 "64 word" "64 word"
  | VArray "value list"
  | VChan nat
  | VFunc nat
  | VInterface "value"
  | VMap "(value \<times> value) list"
  | VPtr nat "value"
  | VSlice "value list"
  | VString string
  | VStruct string "(StructField \<times> value) list"
  | VUnsafePointer nat

fun Kind :: "value \<Rightarrow> kind" where
  "Kind VInvalid = KInvalid" | "Kind (VBool _) = KBool"
| "Kind (VInt _) = KInt" | "Kind (VInt8 _) = KInt8" | "Kind (VInt16 _) = KInt16"
| "Kind (VInt32 _) = KInt32" | "Kind (VInt64 _) = KInt64"
| "Kind (VUint _) = KUint" | "Kind (VUint8 _) = KUint8" | "Kind (VUint16 _) = KUint16"
| "Kind (VUint32 _) = KUint32" | "Kind (VUint64 _) = KUint64" | "Kind (VUintptr _) = KUintptr"
| "Kind (VFloat32 _) = KFloat32" | "Kind (VFloat64 _) = KFloat64"
| "Kind (VComplex64 _ _) = KComplex64" | "Kind (VComplex128 _ _) = KComplex128"
| "Kind (VArray _) = KArray" | "Kind (VChan _) = KChan" | "Kind (VFunc _) = KFunc"
| "Kind (VInterface _) = KInterface" | "Kind (VMap _) = KMap" | "Kind (VPtr _ _) = KPtr"
| "Kind (VSlice _) = KSlice" | "Kind (VString _) = KString" | "Kind (VStruct _ _) = KStruct"
| "Kind (VUnsafePointer _) = KUnsafePointer"

text \<open>\<^verbatim>\<open>v.MapIndex(k)\<close>: the value stored under \<open>k\<close>, the zero Value when there is none.\<close>

definition MapIndex :: "(value \<times> value) list \<Rightarrow> value \<Rightarrow> value" where
  "MapIndex es k = (case map_of es k of None \<Rightarrow> VInvalid | Some x \<Rightarrow> x)"

text \<open>
  A \<^verbatim>\<open>reflect.Value\<close> also carries the read-only bits of its flag, which record that it
  was obtained through an unexported struct field: \<open>RW\<close> (neither bit), \<open>StickyRO\<close>
  (\<^verbatim>\<open>flagStickyRO\<close>, also standing for both bits set) and \<open>EmbedRO\<close> (\<^verbatim>\<open>flagEmbedRO\<close>
  alone). \<^verbatim>\<open>reflect.ValueOf\<close> yields neither bit. \<^verbatim>\<open>Field\<close> inherits the sticky bit only and
  adds \<^verbatim>\<open>flagEmbedRO\<close> for an unexported embedded field, \<^verbatim>\<open>flagStickyRO\<close> for any other
  unexported field. \<^verbatim>\<open>Index\<close>, \<^verbatim>\<open>Elem\<close> of an interface, \<^verbatim>\<open>MapKeys\<close> and \<^verbatim>\<open>MapIndex\<close> turn
  either bit into the sticky one (\<^verbatim>\<open>flag.ro()\<close>); \<^verbatim>\<open>Elem\<close> of a pointer keeps the bits.
  \<^verbatim>\<open>Value.Interface\<close> panics on the zero Value and on a Value with a read-only bit.
\<close>

datatype flag = RW | StickyRO | EmbedRO

type_synonym Value = "flag \<times> value"

definition ValueOf :: "value \<Rightarrow> Value" where
  "ValueOf x = (RW, x)"

definition flag_ro :: "flag \<Rightarrow> flag" where
  "flag_ro fl = (if fl = RW then RW else StickyRO)"

definition Field_flag :: "flag \<Rightarrow> StructField \<Rightarrow> flag" where
  "Field_flag fl f =
     (let inherited = (if fl = StickyRO then StickyRO else RW) in
      if PkgPath f = [] then inherited
      else if Anonymous f then (if inherited = StickyRO then StickyRO else EmbedRO)
      else StickyRO)"

section \<open>Errors and writing\<close>

text \<open>
  The errors a call can end with: \<^verbatim>\<open>unknown kind to hash: %s\<close>,
  \<^verbatim>\<open>unresolvable hash collision: %#v\<close> (naming a key), the error of \<^verbatim>\<open>binary.Write\<close> for a
  type without fixed size, \<^verbatim>\<open>ErrNotStringer\<close> (naming a field), and a run-time panic
  (index out of range, \<^verbatim>\<open>Value.Interface\<close> on a zero or read-only Value).
\<close>

datatype error =
    UnknownKind kind
  | UnresolvableCollision "value"
  | BinaryWriteInvalidType kind
  | ErrNotStringer string
  | Panic

definition Interface :: "Value \<Rightarrow> error + value" where
  "Interface v =
     (case fst v of
        RW \<Rightarrow> (if snd v = VInvalid then Inl Panic else Inr (snd v))
      | StickyRO \<Rightarrow> Inl Panic
      | EmbedRO \<Rightarrow> Inl Panic)"

lemma Interface_Inr: "Interface v = Inr x \<Longrightarrow> x = snd v"
  by (auto simp: Interface_def split: flag.splits if_splits)

text \<open>
  \<^verbatim>\<open>binary.Write(w, binary.LittleEndian, data)\<close>: a fixed-size number is encoded in its own
  width, least significant byte first, and handed to the writer in one \<^verbatim>\<open>Write\<close>; a type
  without fixed size (\<^verbatim>\<open>int\<close>, \<^verbatim>\<open>uint\<close>, \<^verbatim>\<open>uintptr\<close>, anything not numeric) is an error.
\<close>

definition le_bytes :: "nat \<Rightarrow> 'a::len word \<Rightarrow> byte list" where
  "le_bytes n x = map (\<lambda>i. ucast (drop_bit (8 * i) x)) [0..<n]"

definition bytes_of_string :: "string \<Rightarrow> byte list" where
  "bytes_of_string s = map (\<lambda>c. of_nat (of_char c)) s"

fun binary_Write :: "Hash64 \<Rightarrow> value \<Rightarrow> error + Hash64" where
  "binary_Write wr (VBool b) = Inr (Write wr [if b then 1 else 0])"
| "binary_Write wr (VInt8 x) = Inr (Write wr (le_bytes 1 x))"
| "binary_Write wr (VInt16 x) = Inr (Write wr (le_bytes 2 x))"
| "binary_Write wr (VInt32 x) = Inr (Write wr (le_bytes 4 x))"
| "binary_Write wr (VInt64 x) = Inr (Write wr (le_bytes 8 x))"
| "binary_Write wr (VUint8 x) = Inr (Write wr (le_bytes 1 x))"
| "binary_Write wr (VUint16 x) = Inr (Write wr (le_bytes 2 x))"
| "binary_Write wr (VUint32 x) = Inr (Write wr (le_bytes 4 x))"
| "binary_Write wr (VUint64 x) = Inr (Write wr (le_bytes 8 x))"
| "binary_Write wr (VFloat32 x) = Inr (Write wr (le_bytes 4 x))"
| "binary_Write wr (VFloat64 x) = Inr (Write wr (le_bytes 8 x))"
| "binary_Write wr (VComplex64 re im) = Inr (Write wr (le_bytes 4 re @ le_bytes 4 im))"
| "binary_Write wr (VComplex128 re im) = Inr (Write wr (le_bytes 8 re @ le_bytes 8 im))"
| "binary_Write wr v = Inl (BinaryWriteInvalidType (Kind v))"

text \<open>
  A \<^verbatim>\<open>for\<close> loop whose body may return an error: the body threads a state and the first
  error ends the loop.
\<close>

fun for_each :: "'a list \<Rightarrow> ('a \<Rightarrow> 's \<Rightarrow> error + 's) \<Rightarrow> 's \<Rightarrow> error + 's" where
  "for_each [] body s = Inr s"
| "for_each (x # xs) body s =
     (case body x s of Inl err \<Rightarrow> Inl err | Inr s' \<Rightarrow> for_each xs body s')"

lemma for_each_cong [fundef_cong]:
  "xs = ys \<Longrightarrow> (\<And>x s. x \<in> set ys \<Longrightarrow> f x s = g x s) \<Longrightarrow> s = t
   \<Longrightarrow> for_each xs f s = for_each ys g t"
  by (induction ys arbitrary: xs s t) (auto split: sum.splits)

lemma size_list_member: "x \<in> set xs \<Longrightarrow> f x \<le> size_list f xs"
  by (induction xs) auto

lemma size_fst_member:
  "(k, x) \<in> set es \<Longrightarrow> size k \<le> size_list (size_prod size size) es"
  using size_list_member [of "(k, x)" es "size_prod size size"] by simp

lemma size_snd_member:
  "(k, x) \<in> set es \<Longrightarrow> size x \<le> size_list (size_prod f size) es"
  using size_list_member [of "(k, x)" es "size_prod f size"] by simp

lemma size_MapIndex: "size (MapIndex es k) \<le> size_list (size_prod size size) es"
proof (cases "map_of es k")
  case None
  then show ?thesis by (simp add: MapIndex_def)
next
  case (Some x)
  then have "(k, x) \<in> set es" by (rule map_of_SomeD)
  then show ?thesis
    using Some size_snd_member [of k x es size] by (simp add: MapIndex_def)
qed

section \<open>\<^verbatim>\<open>hashstructure.go\<close>: keys ordered by an inline loop\<close>

record HashOptions =
  Hasher :: "Hash64 option"

record walker =
  walker_w :: Hash64

text \<open>
  The loop of the \<^verbatim>\<open>reflect.Map\<close> case that hashes the keys. \<open>H k hasher\<close> stands for the
  recursive call \<^verbatim>\<open>Hash(k.Interface(), &HashOptions{Hasher: hasher})\<close>. On the first
  collision the loop switches to FNV and executes \<^verbatim>\<open>i = 0; continue\<close>; the \<^verbatim>\<open>continue\<close>
  runs the post statement \<^verbatim>\<open>i++\<close> of the \<^verbatim>\<open>for\<close>, so the next iteration is at index 1,
  with \<open>m\<close> and \<open>ks\<close> as they are.
\<close>

function map_keys_loop ::
  "(value \<Rightarrow> Hash64 option \<Rightarrow> error + uint64) \<Rightarrow> value list \<Rightarrow> nat \<Rightarrow> Hash64 option
     \<Rightarrow> (uint64 \<rightharpoonup> value) \<Rightarrow> uint64 list
     \<Rightarrow> error + ((uint64 \<rightharpoonup> value) \<times> uint64 list)" where
  "map_keys_loop H keys i hasher m ks =
     (if i < length keys then
        (let k = keys ! i in
         case H k hasher of
           Inl err \<Rightarrow> Inl err
         | Inr d \<Rightarrow>
            (let ks = ks[i := d] in
             if m d \<noteq> None then
               (if hasher \<noteq> None then Inl (UnresolvableCollision k)
                else map_keys_loop H keys (Suc 0) (Some fnv_New64) m ks)
             else map_keys_loop H keys (Suc i) hasher (m(d \<mapsto> k)) ks))
      else Inr (m, ks))"
  by pat_completeness auto
termination
  by (relation "measures [\<lambda>(H, keys, i, hasher, m, ks). if hasher = None then 1 else 0,
                          \<lambda>(H, keys, i, hasher, m, ks). length keys - i]") auto

declare map_keys_loop.simps [simp del]

lemma map_keys_loop_ext:
  "(\<And>k h. k \<in> set keys \<Longrightarrow> H k h = H' k h)
   \<Longrightarrow> map_keys_loop H keys i hasher m ks = map_keys_loop H' keys i hasher m ks"
proof (induction H keys i hasher m ks rule: map_keys_loop.induct)
  case (1 H keys i hasher m ks)
  show ?case
  proof (cases "i < length keys")
    case False
    then show ?thesis
      by (simp add: map_keys_loop.simps [of H] map_keys_loop.simps [of H'])
  next
    case True
    then have eq: "H (keys ! i) hasher = H' (keys ! i) hasher"
      using 1(3) by simp
    show ?thesis
    proof (cases "H' (keys ! i) hasher")
      case (Inl err)
      with True eq show ?thesis
        by (simp add: map_keys_loop.simps [of H] map_keys_loop.simps [of H'])
    next
      case (Inr d)
      have r1: "m d \<noteq> None \<Longrightarrow> hasher = None \<Longrightarrow>
          map_keys_loop H keys (Suc 0) (Some fnv_New64) m (ks[i := d])
          = map_keys_loop H' keys (Suc 0) (Some fnv_New64) m (ks[i := d])"
        using 1(1) [OF True refl _ refl] Inr eq 1(3) by auto
      have r2: "m d = None \<Longrightarrow>
          map_keys_loop H keys (Suc i) hasher (m(d \<mapsto> keys ! i)) (ks[i := d])
          = map_keys_loop H' keys (Suc i) hasher (m(d \<mapsto> keys ! i)) (ks[i := d])"
        using 1(2) [OF True refl _ refl] Inr eq 1(3) by (auto simp: fun_upd_def)
      show ?thesis
        using True eq Inr r1 r2
        by (simp add: map_keys_loop.simps [of H keys i] map_keys_loop.simps [of H' keys i] Let_def)
    qed
  qed
qed

lemma map_keys_loop_cong [fundef_cong]:
  "keys = keys' \<Longrightarrow> (\<And>k h. k \<in> set keys' \<Longrightarrow> H k h = H' k h) \<Longrightarrow> i = i'
   \<Longrightarrow> hasher = hasher' \<Longrightarrow> m = m' \<Longrightarrow> ks = ks'
   \<Longrightarrow> map_keys_loop H keys i hasher m ks = map_keys_loop H' keys' i' hasher' m' ks'"
  using map_keys_loop_ext [of keys' H H' i' hasher' m' ks'] by simp

lemma map_keys_loop_range:
  "map_keys_loop H keys i hasher m ks = Inr (m', ks') \<Longrightarrow> m' d = Some k
   \<Longrightarrow> m d = Some k \<or> k \<in> set keys"
proof (induction H keys i hasher m ks rule: map_keys_loop.induct)
  case (1 H keys i hasher m ks)
  show ?case
  proof (cases "i < length keys")
    case False
    with 1(3,4) show ?thesis by (simp add: map_keys_loop.simps [of H keys i])
  next
    case True
    show ?thesis
    proof (cases "H (keys ! i) hasher")
      case (Inl err)
      with True 1(3) show ?thesis by (simp add: map_keys_loop.simps [of H keys i])
    next
      case (Inr x)
      show ?thesis
      proof (cases "m x = None")
        case mx: True
        have "map_keys_loop H keys (Suc i) hasher (m(x \<mapsto> keys ! i)) (ks[i := x]) = Inr (m', ks')"
          using 1(3) True Inr mx by (simp add: map_keys_loop.simps [of H keys i])
        from 1(2) [OF True refl Inr refl _ this 1(4)] mx
        have "(m(x \<mapsto> keys ! i)) d = Some k \<or> k \<in> set keys" by simp
        then show ?thesis using True by (auto split: if_splits)
      next
        case mx: False
        then have hn: "hasher = None"
          using 1(3) True Inr by (cases hasher) (auto simp: map_keys_loop.simps [of H keys i])
        have "map_keys_loop H keys (Suc 0) (Some fnv_New64) m (ks[i := x]) = Inr (m', ks')"
          using 1(3) True Inr mx hn by (simp add: map_keys_loop.simps [of H keys i])
        from 1(1) [OF True refl Inr refl _ _ this 1(4)] mx hn
        show ?thesis by simp
      qed
    qed
  qed
qed

text \<open>
  \<^verbatim>\<open>Hash\<close> and \<^verbatim>\<open>walker.visit\<close>. \<open>Hash\<close> takes the data of its \<^verbatim>\<open>interface{}\<close> argument and
  starts the walk at \<^verbatim>\<open>reflect.ValueOf(v)\<close>. The loop that strips interfaces and pointers
  is the recursion of the first two equations of \<open>visit\<close>; the last equation is the
  scalar path: nil becomes \<^verbatim>\<open>int8\<close> zero, \<^verbatim>\<open>int\<close>, \<^verbatim>\<open>uint\<close> and \<^verbatim>\<open>bool\<close> are converted (each
  through a fresh \<^verbatim>\<open>reflect.ValueOf\<close>), and the kinds from \<^verbatim>\<open>Int\<close> to \<^verbatim>\<open>Complex64\<close> go to
  \<^verbatim>\<open>binary.Write\<close> with \<^verbatim>\<open>v.Interface()\<close>, every other kind to the \<^verbatim>\<open>default\<close> branch.
  In the map case the keys come from \<^verbatim>\<open>MapKeys\<close> and the values from \<^verbatim>\<open>MapIndex\<close>, and each
  key is hashed through \<^verbatim>\<open>k.Interface()\<close>.
\<close>

function (sequential) Hash :: "value \<Rightarrow> HashOptions option \<Rightarrow> error + uint64"
  and visit :: "walker \<Rightarrow> Value \<Rightarrow> error + walker" where
  "Hash v opts =
     (let opts = (case opts of None \<Rightarrow> \<lparr>Hasher = None\<rparr> | Some given \<Rightarrow> given);
          hasher = (case Hasher opts of None \<Rightarrow> crc64_New | Some h \<Rightarrow> h);
          hasher = Reset hasher
      in case visit \<lparr>walker_w = hasher\<rparr> (ValueOf v) of
           Inl err \<Rightarrow> Inl err
         | Inr w' \<Rightarrow> Inr (Sum64 (walker_w w')))"
| "visit w (fl, VInterface x) = visit w (flag_ro fl, x)"
| "visit w (fl, VPtr a x) = visit w (fl, x)"
| "visit w (fl, VArray vs) = for_each vs (\<lambda>x w. visit w (flag_ro fl, x)) w"
| "visit w (fl, VMap es) =
     (let keys = map fst es in
      case map_keys_loop
             (\<lambda>k hasher.
                case Interface (flag_ro fl, k) of
                  Inl err \<Rightarrow> Inl err
                | Inr x \<Rightarrow> Hash x (Some \<lparr>Hasher = hasher\<rparr>))
             keys 0 None Map.empty (replicate (length es) 0) of
        Inl err \<Rightarrow> Inl err
      | Inr (m, ks) \<Rightarrow>
          for_each (sort ks)
            (\<lambda>hashKey w.
               case m hashKey of
                 None \<Rightarrow> Inl Panic
               | Some k \<Rightarrow>
                   (case visit w (flag_ro fl, k) of
                      Inl err \<Rightarrow> Inl err
                    | Inr w \<Rightarrow> visit w (flag_ro fl, MapIndex es k))) w)"
| "visit w (fl, VStruct t fs) =
     for_each fs
       (\<lambda>(f, x) w.
          if CanSet f \<or> Name f \<noteq> ''_'' then visit w (Field_flag fl f, x) else Inr w) w"
| "visit w (fl, VSlice vs) = for_each vs (\<lambda>x w. visit w (flag_ro fl, x)) w"
| "visit w (fl, VString s) = Inr (w\<lparr>walker_w := Write (walker_w w) (bytes_of_string s)\<rparr>)"
| "visit w (fl, v) =
     (let v = (if v = VInvalid then ValueOf (VInt8 0) else (fl, v));
          v = (case snd v of
                 VInt n \<Rightarrow> ValueOf (VInt64 n)
               | VUint n \<Rightarrow> ValueOf (VUint64 n)
               | VBool b \<Rightarrow> ValueOf (VInt8 (if b then 1 else 0))
               | _ \<Rightarrow> v);
          k = Kind (snd v)
      in if kind_num KInt \<le> kind_num k \<and> kind_num k \<le> kind_num KComplex64
         then (case Interface v of
                 Inl err \<Rightarrow> Inl err
               | Inr data \<Rightarrow>
                   (case binary_Write (walker_w w) data of
                      Inl err \<Rightarrow> Inl err
                    | Inr wr \<Rightarrow> Inr (w\<lparr>walker_w := wr\<rparr>)))
         else Inl (UnknownKind k))"
  by pat_completeness auto
termination
  apply (relation "measure (\<lambda>x. case x of Inl (v, opts) \<Rightarrow> 2 * size v + 1
                                         | Inr (w, fl, v) \<Rightarrow> 2 * size v)")
  subgoal by simp
  subgoal by (simp add: ValueOf_def)
  subgoal by simp
  subgoal by simp
  subgoal for w fl vs x s using size_list_member [of x vs size] by simp
  subgoal for w fl es x k h b
    using size_fst_member [of k _ es] Interface_Inr [of "(flag_ro fl, k)" b] by fastforce
  subgoal for w fl es x b m ks hashKey s k
    using map_keys_loop_range [of _ "map fst es" 0 None
        Map.empty "replicate (length es) 0" m ks hashKey k] size_fst_member [of k _ es]
    by fastforce
  subgoal for w fl es x b m ks hashKey s k ba using size_MapIndex [of es k] by simp
  subgoal for w fl t fs fx s f x using size_snd_member [of f x fs "\<lambda>x. 0"] by simp
  subgoal for w fl vs x s using size_list_member [of x vs size] by simp
  done

section \<open>The variant with \<^verbatim>\<open>sortValues\<close>\<close>

text \<open>
  The first loop of \<^verbatim>\<open>sortValues\<close>: hash every value with default options, record in \<open>m\<close>
  which index owns a digest, and collect in \<open>collision\<close> the indices whose digest was
  already taken (the first owner once, marked by \<open>-1\<close> in \<open>m\<close>). \<open>H v\<close> stands for
  \<^verbatim>\<open>Hash(v.Interface(), nil)\<close>, the elements of \<open>vs\<close> being \<^verbatim>\<open>reflect.Value\<close>s.
\<close>

fun sortValues_first ::
  "(Value \<Rightarrow> error + uint64) \<Rightarrow> Value list \<Rightarrow> nat \<Rightarrow> uint64 list \<Rightarrow> (uint64 \<rightharpoonup> int)
     \<Rightarrow> int list \<Rightarrow> error + (uint64 list \<times> (uint64 \<rightharpoonup> int) \<times> int list)" where
  "sortValues_first H [] i ks m collision = Inr (ks, m, collision)"
| "sortValues_first H (v # vs) i ks m collision =
     (case H v of
        Inl err \<Rightarrow> Inl err
      | Inr d \<Rightarrow>
         (let ks = ks[i := d] in
          case m d of
            Some j \<Rightarrow>
              (let (collision, m) =
                     (if j \<ge> 0 then (collision @ [j], m(d \<mapsto> - 1)) else (collision, m));
                   collision = collision @ [int i]
               in sortValues_first H vs (Suc i) ks m collision)
          | None \<Rightarrow> sortValues_first H vs (Suc i) ks (m(d \<mapsto> int i)) collision))"

lemma sortValues_first_cong [fundef_cong]:
  "vs = vs' \<Longrightarrow> (\<And>x. x \<in> set vs' \<Longrightarrow> H x = H' x) \<Longrightarrow> i = i' \<Longrightarrow> ks = ks' \<Longrightarrow> m = m'
   \<Longrightarrow> collision = collision'
   \<Longrightarrow> sortValues_first H vs i ks m collision = sortValues_first H' vs' i' ks' m' collision'"
proof (induction vs' arbitrary: vs i i' ks ks' m m' collision collision')
  case Nil
  then show ?case by simp
next
  case (Cons v vs')
  have hv: "H v = H' v" using Cons.prems(2) by simp
  have rest: "sortValues_first H vs' j ks1 m1 c1 = sortValues_first H' vs' j ks1 m1 c1"
    for j ks1 m1 c1
    using Cons.IH [OF refl _ refl refl refl refl] Cons.prems(2) by simp
  show ?case
    using Cons.prems(1,3-6) hv rest
    by (simp add: Let_def split: sum.splits option.splits prod.splits)
qed

text \<open>
  The second loop: every index in \<open>collision\<close> is hashed again with FNV; a digest that is
  already a key of \<open>m\<close> ends the call with the collision error. \<open>H v\<close> stands for
  \<^verbatim>\<open>Hash(vs[c].Interface(), &HashOptions{Hasher: hasher})\<close>. An index outside the slice
  would panic.
\<close>

fun sortValues_second ::
  "(Value \<Rightarrow> error + uint64) \<Rightarrow> Value list \<Rightarrow> int list \<Rightarrow> uint64 list \<Rightarrow> (uint64 \<rightharpoonup> int)
     \<Rightarrow> error + (uint64 list \<times> (uint64 \<rightharpoonup> int))" where
  "sortValues_second H vs [] ks m = Inr (ks, m)"
| "sortValues_second H vs (c # cs) ks m =
     (if 0 \<le> c \<and> nat c < length vs then
        (case H (vs ! nat c) of
           Inl err \<Rightarrow> Inl err
         | Inr d \<Rightarrow>
            if m d \<noteq> None then Inl (UnresolvableCollision (snd (vs ! nat c)))
            else sortValues_second H vs cs (ks[nat c := d]) (m(d \<mapsto> c)))
      else Inl Panic)"

lemma sortValues_second_cong [fundef_cong]:
  "vs = vs' \<Longrightarrow> (\<And>x. x \<in> set vs' \<Longrightarrow> H x = H' x) \<Longrightarrow> cs = cs' \<Longrightarrow> ks = ks' \<Longrightarrow> m = m'
   \<Longrightarrow> sortValues_second H vs cs ks m = sortValues_second H' vs' cs' ks' m'"
proof (induction cs' arbitrary: cs ks ks' m m')
  case Nil
  then show ?case by simp
next
  case (Cons c cs')
  have hv: "H (vs' ! nat c) = H' (vs' ! nat c)" if "nat c < length vs'"
    using Cons.prems(2) that by simp
  have rest: "sortValues_second H vs' cs' ks1 m1 = sortValues_second H' vs' cs' ks1 m1"
    for ks1 m1
    using Cons.IH [OF Cons.prems(1) _ refl refl refl] Cons.prems(1,2) by simp
  show ?case
    using Cons.prems(1,3-5) hv rest
    by (simp split: sum.splits)
qed

text \<open>
  \<^verbatim>\<open>sortValues\<close>, with the recursive call to \<^verbatim>\<open>Hash\<close> as a parameter (the function is
  tied to \<open>Hash_sorted\<close> below). The result entry for a sorted digest is \<^verbatim>\<open>m[v]\<close>, which is
  0 for a digest that is not a key of \<open>m\<close>.
\<close>

definition sortValues_body ::
  "(value \<Rightarrow> HashOptions option \<Rightarrow> error + uint64) \<Rightarrow> Value list \<Rightarrow> error + int list" where
  "sortValues_body HashF vs =
     (case sortValues_first
             (\<lambda>v. case Interface v of Inl err \<Rightarrow> Inl err | Inr x \<Rightarrow> HashF x None)
             vs 0 (replicate (length vs) 0) Map.empty [] of
        Inl err \<Rightarrow> Inl err
      | Inr (ks, m, collision) \<Rightarrow>
         (case (if length collision > 0
                then sortValues_second
                       (\<lambda>v. case Interface v of
                              Inl err \<Rightarrow> Inl err
                            | Inr x \<Rightarrow> HashF x (Some \<lparr>Hasher = Some fnv_New64\<rparr>))
                       vs collision ks m
                else Inr (ks, m)) of
            Inl err \<Rightarrow> Inl err
          | Inr (ks, m) \<Rightarrow>
              Inr (map (\<lambda>v. case m v of None \<Rightarrow> 0 | Some j \<Rightarrow> j) (sort ks))))"

lemma sortValues_body_cong [fundef_cong]:
  "vs = vs' \<Longrightarrow> (\<And>x opts. x \<in> snd ` set vs' \<Longrightarrow> HashF x opts = HashF' x opts)
   \<Longrightarrow> sortValues_body HashF vs = sortValues_body HashF' vs'"
proof -
  assume eq: "vs = vs'" and h: "\<And>x opts. x \<in> snd ` set vs' \<Longrightarrow> HashF x opts = HashF' x opts"
  have i: "(case Interface v of Inl err \<Rightarrow> Inl err | Inr x \<Rightarrow> HashF x opts)
         = (case Interface v of Inl err \<Rightarrow> Inl err | Inr x \<Rightarrow> HashF' x opts)"
    if "v \<in> set vs'" for v opts
    using that h [of "snd v" opts] Interface_Inr [of v] by (auto split: sum.splits)
  have a: "sortValues_first
             (\<lambda>v. case Interface v of Inl err \<Rightarrow> Inl err | Inr x \<Rightarrow> HashF x None) vs' j ks m c
         = sortValues_first
             (\<lambda>v. case Interface v of Inl err \<Rightarrow> Inl err | Inr x \<Rightarrow> HashF' x None) vs' j ks m c"
    for j ks m c
    by (rule sortValues_first_cong) (simp_all add: i)
  have b: "sortValues_second
             (\<lambda>v. case Interface v of Inl err \<Rightarrow> Inl err
                  | Inr x \<Rightarrow> HashF x (Some \<lparr>Hasher = Some fnv_New64\<rparr>)) vs' cs ks m
         = sortValues_second
             (\<lambda>v. case Interface v of Inl err \<Rightarrow> Inl err
                  | Inr x \<Rightarrow> HashF' x (Some \<lparr>Hasher = Some fnv_New64\<rparr>)) vs' cs ks m"
    for cs ks m
    by (rule sortValues_second_cong) (simp_all add: i)
  show ?thesis
    unfolding sortValues_body_def eq a b ..
qed

function (sequential) Hash_sorted :: "value \<Rightarrow> HashOptions option \<Rightarrow> error + uint64"
  and visit_sorted :: "walker \<Rightarrow> Value \<Rightarrow> error + walker" where
  "Hash_sorted v opts =
     (let opts = (case opts of None \<Rightarrow> \<lparr>Hasher = None\<rparr> | Some given \<Rightarrow> given);
          hasher = (case Hasher opts of None \<Rightarrow> crc64_New | Some h \<Rightarrow> h);
          hasher = Reset hasher
      in case visit_sorted \<lparr>walker_w = hasher\<rparr> (ValueOf v) of
           Inl err \<Rightarrow> Inl err
         | Inr w' \<Rightarrow> Inr (Sum64 (walker_w w')))"
| "visit_sorted w (fl, VInterface x) = visit_sorted w (flag_ro fl, x)"
| "visit_sorted w (fl, VPtr a x) = visit_sorted w (fl, x)"
| "visit_sorted w (fl, VArray vs) = for_each vs (\<lambda>x w. visit_sorted w (flag_ro fl, x)) w"
| "visit_sorted w (fl, VMap es) =
     (let keys = map (\<lambda>e. (flag_ro fl, fst e)) es in
      case sortValues_body Hash_sorted keys of
        Inl err \<Rightarrow> Inl err
      | Inr idxs \<Rightarrow>
          for_each idxs
            (\<lambda>idx w.
               if 0 \<le> idx \<and> nat idx < length keys then
                 (let k = keys ! nat idx in
                  case visit_sorted w k of
                    Inl err \<Rightarrow> Inl err
                  | Inr w \<Rightarrow> visit_sorted w (flag_ro fl, MapIndex es (snd k)))
               else Inl Panic) w)"
| "visit_sorted w (fl, VStruct t fs) =
     for_each fs
       (\<lambda>(f, x) w.
          if CanSet f \<or> Name f \<noteq> ''_'' then visit_sorted w (Field_flag fl f, x) else Inr w) w"
| "visit_sorted w (fl, VSlice vs) = for_each vs (\<lambda>x w. visit_sorted w (flag_ro fl, x)) w"
| "visit_sorted w (fl, VString s) =
     Inr (w\<lparr>walker_w := Write (walker_w w) (bytes_of_string s)\<rparr>)"
| "visit_sorted w (fl, v) =
     (let v = (if v = VInvalid then ValueOf (VInt8 0) else (fl, v));
          v = (case snd v of
                 VInt n \<Rightarrow> ValueOf (VInt64 n)
               | VUint n \<Rightarrow> ValueOf (VUint64 n)
               | VBool b \<Rightarrow> ValueOf (VInt8 (if b then 1 else 0))
               | _ \<Rightarrow> v);
          k = Kind (snd v)
      in if kind_num KInt \<le> kind_num k \<and> kind_num k \<le> kind_num KComplex64
         then (case Interface v of
                 Inl err \<Rightarrow> Inl err
               | Inr data \<Rightarrow>
                   (case binary_Write (walker_w w) data of
                      Inl err \<Rightarrow> Inl err
                    | Inr wr \<Rightarrow> Inr (w\<lparr>walker_w := wr\<rparr>)))
         else Inl (UnknownKind k))"
  by pat_completeness auto
termination
  apply (relation "measure (\<lambda>x. case x of Inl (v, opts) \<Rightarrow> 2 * size v + 1
                                         | Inr (w, fl, v) \<Rightarrow> 2 * size v)")
  subgoal by simp
  subgoal by (simp add: ValueOf_def)
  subgoal by simp
  subgoal by simp
  subgoal for w fl vs x s using size_list_member [of x vs size] by simp
  subgoal for w fl es x k opts using size_fst_member [of k _ es] by fastforce
  subgoal for w fl es x b idx s k
    using size_fst_member [of "fst (es ! nat idx)" "snd (es ! nat idx)" es]
      nth_mem [of "nat idx" es] by simp
  subgoal for w fl es x b idx s k ba using size_MapIndex [of es "snd k"] by simp
  subgoal for w fl t fs fx s f x using size_snd_member [of f x fs "\<lambda>x. 0"] by simp
  subgoal for w fl vs x s using size_list_member [of x vs size] by simp
  done

definition sortValues :: "Value list \<Rightarrow> error + int list" where
  "sortValues vs = sortValues_body Hash_sorted vs"

section \<open>The variant with struct tags\<close>




section \<open>Notions used in the statements and proofs\<close>

subsection \<open>The writes of a walk\<close>

text \<open>
  A step of the walker is \<open>traced\<close> when its outcome is the same for every walker: either
  one error, or one sequence of \<^verbatim>\<open>Write\<close> calls appended to whatever hasher the walker
  holds.
\<close>

definition writes :: "byte list list \<Rightarrow> walker \<Rightarrow> walker" where
  "writes chunks w = w\<lparr>walker_w := foldl Write (walker_w w) chunks\<rparr>"

definition traced :: "(walker \<Rightarrow> error + walker) \<Rightarrow> bool" where
  "traced f =
     (\<exists>r. \<forall>w. f w = (case r of Inl err \<Rightarrow> Inl err | Inr chunks \<Rightarrow> Inr (writes chunks w)))"

subsection \<open>Records that differ only in ignored fields\<close>



subsection \<open>Colliding digests\<close>

text \<open>
  For a list of digests in index order: the indices that hold a digest, whether an index
  shares its digest with another one, what the first loop of \<^verbatim>\<open>sortValues\<close> records in
  \<open>m\<close> for a digest, and the indices it collects for rehashing.
\<close>

definition occ :: "'a list \<Rightarrow> 'a \<Rightarrow> nat set" where
  "occ ds d = {j. j < length ds \<and> ds ! j = d}"

definition colliding :: "'a list \<Rightarrow> nat \<Rightarrow> bool" where
  "colliding ds j \<longleftrightarrow> (\<exists>a < length ds. a \<noteq> j \<and> ds ! a = ds ! j)"

definition owner :: "'a list \<Rightarrow> 'a \<Rightarrow> int option" where
  "owner ds d =
     (if occ ds d = {} then None
      else if is_singleton (occ ds d) then Some (int (the_elem (occ ds d)))
      else Some (- 1))"

definition collided :: "'a list \<Rightarrow> int set" where
  "collided ds = int ` {j. j < length ds \<and> colliding ds j}"


section \<open>Evaluation and structural lemmas\<close>

lemma table_loop_numeral [simp]:
  "table_loop (numeral n) crc = table_loop (pred_numeral n) (table_step crc)"
  by (simp add: numeral_eq_Suc)

lemma NOT_uint64: "NOT (c :: uint64) = c XOR 0xFFFFFFFFFFFFFFFF"
proof -
  have "(0xFFFFFFFFFFFFFFFF :: uint64) = - 1" by simp
  then show ?thesis by (simp only: bit.xor_one_right)
qed

lemma le_bytes_1: "le_bytes (Suc 0) x = [ucast x]"
  by (simp add: le_bytes_def)

lemma le_bytes_2: "le_bytes 2 x = [ucast x, ucast (drop_bit 8 x)]"
  by (simp add: le_bytes_def upt_rec numeral_eq_Suc)

lemma le_bytes_4:
  "le_bytes 4 x = [ucast x, ucast (drop_bit 8 x), ucast (drop_bit 16 x), ucast (drop_bit 24 x)]"
  by (simp add: le_bytes_def upt_rec numeral_eq_Suc)

lemma le_bytes_8:
  "le_bytes 8 x = [ucast x, ucast (drop_bit 8 x), ucast (drop_bit 16 x), ucast (drop_bit 24 x),
     ucast (drop_bit 32 x), ucast (drop_bit 40 x), ucast (drop_bit 48 x), ucast (drop_bit 56 x)]"
  by (simp add: le_bytes_def upt_rec numeral_eq_Suc)

lemmas hash_eval = ECMA_def table_step_def table_entry_def crc_byte_def crc64_update_def
  NOT_uint64 crc64_New_def fnv_byte_def fnv_New64_def offset64_def prime64_def
  bytes_of_string_def le_bytes_1 le_bytes_2 le_bytes_4 le_bytes_8 MapIndex_def Let_def
  ValueOf_def Interface_def flag_ro_def Field_flag_def

lemmas loop_eval = map_keys_loop.simps sortValues_body_def

lemma for_each_append:
  "for_each (xs @ ys) body s =
     (case for_each xs body s of Inl err \<Rightarrow> Inl err | Inr s' \<Rightarrow> for_each ys body s')"
  by (induction xs arbitrary: s) (auto split: sum.splits)

lemma crc64_update_append:
  "crc64_update (crc64_update c p) q = crc64_update c (p @ q)"
  by (simp add: crc64_update_def)

lemma crc64_update_Nil [simp]: "crc64_update c [] = c"
  by (simp add: crc64_update_def)

lemma bytes_of_string_roundtrip:
  "map (\<lambda>b. char_of (unat b)) (bytes_of_string s) = s"
proof -
  have "char_of (unat (of_nat (of_char c) :: byte)) = c" for c :: char
  proof -
    have "(of_char c :: nat) < 256" by (rule nat_of_char_less_256)
    then have "unat (of_nat (of_char c) :: byte) = of_char c"
      by (simp add: unat_of_nat)
    then show ?thesis by simp
  qed
  then show ?thesis
    by (induction s) (simp_all add: bytes_of_string_def)
qed

subsection \<open>Every walk is traced\<close>

lemma tracedI_Inl: "(\<And>w. f w = Inl err) \<Longrightarrow> traced f"
  unfolding traced_def by (rule exI [of _ "Inl err"]) simp

lemma tracedI_Inr: "(\<And>w. f w = Inr (writes chunks w)) \<Longrightarrow> traced f"
  unfolding traced_def by (rule exI [of _ "Inr chunks"]) simp

lemma writes_Nil [simp]: "writes [] w = w"
  by (simp add: writes_def)

lemma writes_append: "writes ys (writes xs w) = writes (xs @ ys) w"
  by (simp add: writes_def)

lemma traced_bind:
  assumes f: "traced f" and g: "(\<exists>w w'. f w = Inr w') \<Longrightarrow> traced g"
  shows "traced (\<lambda>w. case f w of Inl err \<Rightarrow> Inl err | Inr w' \<Rightarrow> g w')"
proof -
  from f obtain r where
    r: "\<And>w. f w = (case r of Inl err \<Rightarrow> Inl err | Inr chunks \<Rightarrow> Inr (writes chunks w))"
    unfolding traced_def by blast
  show ?thesis
  proof (cases r)
    case (Inl err)
    then show ?thesis using r by (intro tracedI_Inl [of _ err]) simp
  next
    case (Inr xs)
    then have "\<exists>w w'. f w = Inr w'" using r by simp
    from g [OF this] obtain q where
      q: "\<And>w. g w = (case q of Inl err \<Rightarrow> Inl err | Inr chunks \<Rightarrow> Inr (writes chunks w))"
      unfolding traced_def by blast
    show ?thesis
    proof (cases q)
      case (Inl err)
      then show ?thesis using r q Inr by (intro tracedI_Inl [of _ err]) simp
    next
      case ys: (Inr ys)
      then show ?thesis using r q Inr
        by (intro tracedI_Inr [of _ "xs @ ys"]) (simp add: writes_append)
    qed
  qed
qed

lemma traced_for_each:
  "(\<And>x. x \<in> set xs \<Longrightarrow> traced (body x)) \<Longrightarrow> traced (for_each xs body)"
proof (induction xs)
  case Nil
  show ?case by (rule tracedI_Inr [of _ "[]"]) simp
next
  case (Cons x xs)
  have "traced (\<lambda>w. case body x w of Inl err \<Rightarrow> Inl err | Inr w' \<Rightarrow> for_each xs body w')"
    by (rule traced_bind) (simp_all add: Cons)
  then show ?case by simp
qed

lemma traced_write:
  "traced (\<lambda>w. Inr (w\<lparr>walker_w := Write (walker_w w) bs\<rparr>))"
  by (intro tracedI_Inr [of _ "[bs]"]) (simp add: writes_def)

lemma visit_sorted_traced: "traced (\<lambda>w. visit_sorted w (fl, v))"
proof (induction v arbitrary: fl rule: measure_induct_rule [of size])
  case (less v)
  show ?case
  proof (cases v)
    case (VInterface x)
    then show ?thesis using less [of x] by simp
  next
    case (VPtr a x)
    then show ?thesis using less [of x] by simp
  next
    case (VArray vs)
    have "traced (for_each vs (\<lambda>x w. visit_sorted w (flag_ro fl, x)))"
      using less VArray size_list_member [of _ vs size]
      by (intro traced_for_each) (simp add: less_Suc_eq_le)
    then show ?thesis using VArray by simp
  next
    case (VSlice vs)
    have "traced (for_each vs (\<lambda>x w. visit_sorted w (flag_ro fl, x)))"
      using less VSlice size_list_member [of _ vs size]
      by (intro traced_for_each) (simp add: less_Suc_eq_le)
    then show ?thesis using VSlice by simp
  next
    case (VStruct t fs)
    have "traced (for_each fs
       (\<lambda>(f, x) w. if CanSet f \<or> Name f \<noteq> ''_'' then visit_sorted w (Field_flag fl f, x)
                    else Inr w))"
    proof (rule traced_for_each)
      fix p assume p: "p \<in> set fs"
      obtain f x where fx: "p = (f, x)" by (cases p)
      have "size x < size v"
        using VStruct p fx size_snd_member [of f x fs "\<lambda>x. 0"] by simp
      then have "traced (\<lambda>w. visit_sorted w (Field_flag fl f, x))" by (rule less)
      moreover have "traced (\<lambda>w :: walker. Inr w)"
        by (rule tracedI_Inr [of _ "[]"]) simp
      ultimately show "traced (case p of (f, x) \<Rightarrow>
          \<lambda>w. if CanSet f \<or> Name f \<noteq> ''_'' then visit_sorted w (Field_flag fl f, x) else Inr w)"
        using fx by (cases "CanSet f \<or> Name f \<noteq> ''_''") simp_all
    qed
    then show ?thesis using VStruct by simp
  next
    case (VMap es)
    define keys where "keys = map (\<lambda>e. (flag_ro fl, fst e)) es"
    have key: "traced (\<lambda>w. visit_sorted w (fl', k))" if "k \<in> fst ` set es" for k fl'
      using that less [of k] VMap size_fst_member [of k _ es] by fastforce
    have val: "traced (\<lambda>w. visit_sorted w (fl', MapIndex es k))" for k fl'
      using less [of "MapIndex es k"] VMap size_MapIndex [of es k] by simp
    show ?thesis
    proof (cases "sortValues_body Hash_sorted keys")
      case (Inl err)
      then show ?thesis using VMap by (intro tracedI_Inl [of _ err]) (simp add: keys_def)
    next
      case (Inr idxs)
      have "traced (for_each idxs
            (\<lambda>idx w.
               if 0 \<le> idx \<and> nat idx < length keys then
                 (let k = keys ! nat idx in
                  case visit_sorted w k of
                    Inl err \<Rightarrow> Inl err
                  | Inr w \<Rightarrow> visit_sorted w (flag_ro fl, MapIndex es (snd k)))
               else Inl Panic))"
      proof (rule traced_for_each)
        fix idx assume "idx \<in> set idxs"
        show "traced (\<lambda>w. if 0 \<le> idx \<and> nat idx < length keys then
                 (let k = keys ! nat idx in
                  case visit_sorted w k of
                    Inl err \<Rightarrow> Inl err
                  | Inr w \<Rightarrow> visit_sorted w (flag_ro fl, MapIndex es (snd k)))
               else Inl Panic)"
        proof (cases "0 \<le> idx \<and> nat idx < length keys")
          case True
          obtain kf k where k: "keys ! nat idx = (kf, k)" by (cases "keys ! nat idx")
          have "(kf, k) \<in> set keys" using True k nth_mem [of "nat idx" keys] by auto
          then have "k \<in> fst ` set es" by (auto simp: keys_def)
          then have "traced (\<lambda>w. case visit_sorted w (kf, k) of
                    Inl err \<Rightarrow> Inl err
                  | Inr w \<Rightarrow> visit_sorted w (flag_ro fl, MapIndex es k))"
            by (intro traced_bind key val)
          then show ?thesis using True k by (simp add: Let_def cong: sum.case_cong)
        next
          case False
          then show ?thesis by (intro tracedI_Inl [of _ Panic]) auto
        qed
      qed
      then show ?thesis using VMap Inr unfolding keys_def by (simp add: Let_def)
    qed
  next
    case (VString s)
    then show ?thesis by (simp add: traced_write)
  qed (auto simp: Let_def ValueOf_def Interface_def
         intro: traced_write tracedI_Inl split: flag.splits)
qed

subsection \<open>The tag of the walker is never changed\<close>




subsection \<open>The two loops of \<^verbatim>\<open>sortValues\<close>\<close>




lemma occ_nth: "j < length ds \<Longrightarrow> j \<in> occ ds (ds ! j)"
  by (simp add: occ_def)

lemma finite_occ [simp]: "finite (occ ds d)"
  by (simp add: occ_def)
















lemma owner_Nil [simp]: "owner [] = Map.empty"
  by (rule ext) (simp add: owner_def occ_def)

lemma collided_Nil [simp]: "collided [] = {}"
  by (simp add: collided_def)




section \<open>The claims\<close>

text \<open>
  C1. A map's hash does not depend on the order in which the runtime enumerates its keys.
  The loop of \<^verbatim>\<open>hashstructure.go\<close> breaks this when two keys share their CRC-64 digest: the
  strings \<^verbatim>\<open>JRWZu6MP4\<close> and \<^verbatim>\<open>1z959TxAf\<close> do, and after the restart at index 1 the key
  enumerated first keeps its CRC-64 digest while the other is ordered by its FNV digest.
  The two enumerations of \<^verbatim>\<open>map[string]int{"JRWZu6MP4": 1, "1z959TxAf": 2}\<close> hash to
  different codes.
\<close>

theorem Hash_map_enumeration_order_changes_result:
  "Hash (VMap [(VString ''JRWZu6MP4'', VInt 1), (VString ''1z959TxAf'', VInt 2)]) None
     = Inr 2555509965594664385
   \<and> Hash (VMap [(VString ''1z959TxAf'', VInt 2), (VString ''JRWZu6MP4'', VInt 1)]) None
     = Inr 12897500192111893881"
  by (simp add: hash_eval loop_eval)

text \<open>
  On the same two enumerations the variant with \<^verbatim>\<open>sortValues\<close> returns one code.
\<close>

lemma Hash_sorted_same_map_same_result:
  "Hash_sorted (VMap [(VString ''JRWZu6MP4'', VInt 1), (VString ''1z959TxAf'', VInt 2)]) None
     = Inr 12897500192111893881
   \<and> Hash_sorted (VMap [(VString ''1z959TxAf'', VInt 2), (VString ''JRWZu6MP4'', VInt 1)]) None
     = Inr 12897500192111893881"
  by (simp add: hash_eval loop_eval)

text \<open>
  C2. Two calls of \<^verbatim>\<open>Hash\<close> on the same value with the same options return the same
  outcome. The runtime may enumerate a map differently on each call, and with the loop of
  \<^verbatim>\<open>hashstructure.go\<close> two calls on one struct holding the map
  \<^verbatim>\<open>{"Lg7V54Ya6": true, "7OY9yVlpd": false}\<close>, both with an FNV hasher in the options,
  return different codes.
\<close>

theorem Hash_repeated_call_differs:
  "Hash (VStruct ''Config''
           [(\<lparr>Name = ''Name'', Tag = [], CanSet = False, PkgPath = [], Anonymous = False\<rparr>, VString ''svc''),
            (\<lparr>Name = ''Flags'', Tag = [], CanSet = False, PkgPath = [], Anonymous = False\<rparr>,
               VMap [(VString ''Lg7V54Ya6'', VBool True), (VString ''7OY9yVlpd'', VBool False)])])
        (Some \<lparr>Hasher = Some fnv_New64\<rparr>) = Inr 600296549140631254
   \<and> Hash (VStruct ''Config''
           [(\<lparr>Name = ''Name'', Tag = [], CanSet = False, PkgPath = [], Anonymous = False\<rparr>, VString ''svc''),
            (\<lparr>Name = ''Flags'', Tag = [], CanSet = False, PkgPath = [], Anonymous = False\<rparr>,
               VMap [(VString ''7OY9yVlpd'', VBool False), (VString ''Lg7V54Ya6'', VBool True)])])
        (Some \<lparr>Hasher = Some fnv_New64\<rparr>) = Inr 10714425169574659014"
  by (simp add: hash_eval loop_eval)

text \<open>
  C3. Two records of different nominal types with identical field contents hash
  differently. The struct case of \<^verbatim>\<open>visit\<close> never writes the type, so the type name has no
  influence at all; \<^verbatim>\<open>testFoo{"foo"}\<close> and \<^verbatim>\<open>testBar{"foo"}\<close> of the test suite get the same
  code.
\<close>

theorem Hash_struct_type_name_unused:
  "Hash (VStruct t fs) opts = Hash (VStruct t' fs) opts
   \<and> Hash (VStruct ''testFoo'' [(\<lparr>Name = ''Name'', Tag = [], CanSet = False, PkgPath = [], Anonymous = False\<rparr>, VString ''foo'')])
        None = Inr 10965392271467943256
   \<and> Hash (VStruct ''testBar'' [(\<lparr>Name = ''Name'', Tag = [], CanSet = False, PkgPath = [], Anonymous = False\<rparr>, VString ''foo'')])
        None = Inr 10965392271467943256"
  by (simp add: hash_eval)

text \<open>
  C5, as stated: signed integers of every width are widened to 64 bits, so an \<^verbatim>\<open>int32\<close>
  and an \<^verbatim>\<open>int64\<close> holding the same number hash identically. They do not: \<^verbatim>\<open>int32(1)\<close>
  is written in four bytes and \<^verbatim>\<open>int64(1)\<close> in eight.
\<close>

theorem Hash_int32_int64_differ:
  "Hash (VInt32 1) None = Inr 16810543688801795735
   \<and> Hash (VInt64 1) None = Inr 7842146608648394112
   \<and> Hash (VInt32 1) None \<noteq> Hash (VInt64 1) None"
  by (simp add: hash_eval)

text \<open>
  C5, amended: only the platform-sized \<^verbatim>\<open>int\<close> and \<^verbatim>\<open>uint\<close> are widened, to \<^verbatim>\<open>int64\<close> and
  \<^verbatim>\<open>uint64\<close>, and a boolean becomes the one byte 0 or 1, each through a fresh Value; so
  \<^verbatim>\<open>int\<close> and \<^verbatim>\<open>int64\<close> (and \<^verbatim>\<open>uint\<close> and \<^verbatim>\<open>uint64\<close>) holding the same number hash
  identically under every options. A sized integer that was not obtained through an
  unexported struct field is written in its own width, in one little-endian write.
\<close>

theorem visit_scalar_widths:
  "visit w (fl, VInt n) = visit w (RW, VInt64 n)
   \<and> visit w (fl, VUint n) = visit w (RW, VUint64 n)
   \<and> visit w (fl, VBool p) = Inr (w\<lparr>walker_w := Write (walker_w w) [if p then 1 else 0]\<rparr>)
   \<and> Hash (VInt n) opts = Hash (VInt64 n) opts
   \<and> Hash (VUint n) opts = Hash (VUint64 n) opts
   \<and> visit w (RW, VInt8 a) = Inr (w\<lparr>walker_w := Write (walker_w w) (le_bytes 1 a)\<rparr>)
   \<and> visit w (RW, VInt16 b) = Inr (w\<lparr>walker_w := Write (walker_w w) (le_bytes 2 b)\<rparr>)
   \<and> visit w (RW, VInt32 c) = Inr (w\<lparr>walker_w := Write (walker_w w) (le_bytes 4 c)\<rparr>)
   \<and> visit w (RW, VInt64 n) = Inr (w\<lparr>walker_w := Write (walker_w w) (le_bytes 8 n)\<rparr>)
   \<and> visit w (RW, VUint8 a) = Inr (w\<lparr>walker_w := Write (walker_w w) (le_bytes 1 a)\<rparr>)
   \<and> visit w (RW, VUint16 b) = Inr (w\<lparr>walker_w := Write (walker_w w) (le_bytes 2 b)\<rparr>)
   \<and> visit w (RW, VUint32 c) = Inr (w\<lparr>walker_w := Write (walker_w w) (le_bytes 4 c)\<rparr>)
   \<and> visit w (RW, VUint64 n) = Inr (w\<lparr>walker_w := Write (walker_w w) (le_bytes 8 n)\<rparr>)
   \<and> le_bytes 1 a = [ucast a]
   \<and> le_bytes 2 b = [ucast b, ucast (drop_bit 8 b)]
   \<and> le_bytes 4 c = [ucast c, ucast (drop_bit 8 c), ucast (drop_bit 16 c), ucast (drop_bit 24 c)]
   \<and> le_bytes 8 n = [ucast n, ucast (drop_bit 8 n), ucast (drop_bit 16 n), ucast (drop_bit 24 n),
         ucast (drop_bit 32 n), ucast (drop_bit 40 n), ucast (drop_bit 48 n), ucast (drop_bit 56 n)]
   \<and> Hash (VInt 1) None = Inr 7842146608648394112
   \<and> Hash (VInt64 1) None = Inr 7842146608648394112"
  by (simp add: hash_eval)

text \<open>
  A sized integer obtained through an unexported struct field cannot be handed to
  \<^verbatim>\<open>binary.Write\<close>: \<^verbatim>\<open>v.Interface()\<close> panics. The struct loop does walk such fields, so
  \<^verbatim>\<open>struct{a int32}{1}\<close> ends in the panic, while \<^verbatim>\<open>struct{a int}{1}\<close> is hashed, the
  \<^verbatim>\<open>int\<close> having been converted through a fresh Value.
\<close>

lemma visit_read_only_sized_int_panics:
  "visit w (StickyRO, VInt32 c) = Inl Panic
   \<and> visit w (EmbedRO, VInt32 c) = Inl Panic
   \<and> visit w (StickyRO, VInt64 n) = Inl Panic
   \<and> Hash (VStruct ''T'' [(\<lparr>Name = ''a'', Tag = [], CanSet = False, PkgPath = ''main'',
                                Anonymous = False\<rparr>, VInt32 1)]) None = Inl Panic
   \<and> Hash (VStruct ''T'' [(\<lparr>Name = ''a'', Tag = [], CanSet = False, PkgPath = ''main'',
                                Anonymous = False\<rparr>, VInt 1)]) None = Inr 7842146608648394112"
  by (simp add: hash_eval)

text \<open>
  C6. Adding an exported field that holds its zero value changes the hash. A zero-valued
  string field is written as zero bytes, and a nil slice field is not written at all:
  \<^verbatim>\<open>struct{Name string; Extra string}{"foo", ""}\<close> hashes like
  \<^verbatim>\<open>struct{Name string}{"foo"}\<close> under the default options, and a trailing nil slice field
  leaves the hash unchanged under every options.
\<close>

theorem Hash_zero_valued_field_unchanged:
  "Hash (VStruct ''R2''
           [(\<lparr>Name = ''Name'', Tag = [], CanSet = False, PkgPath = [], Anonymous = False\<rparr>, VString ''foo''),
            (\<lparr>Name = ''Extra'', Tag = [], CanSet = False, PkgPath = [], Anonymous = False\<rparr>, VString [])]) None
     = Hash (VStruct ''R1'' [(\<lparr>Name = ''Name'', Tag = [], CanSet = False, PkgPath = [], Anonymous = False\<rparr>, VString ''foo'')]) None
   \<and> Hash (VStruct t (fs @ [(f, VSlice [])])) opts = Hash (VStruct t fs) opts"
  by (simp add: hash_eval for_each_append split: sum.splits)

text \<open>
  C7. Visiting a string writes exactly the bytes of its text, with nothing before or
  after: the bytes written are one byte per character, in order, from which the text can
  be read back, and the default hash of a string is the CRC-64 of those bytes
  (\<^verbatim>\<open>"foo"\<close> gives 10965392271467943256). So moving a piece of text from the end of one
  string to the start of the next leaves the default hash unchanged, and the distinct
  slices \<^verbatim>\<open>["ab","c"]\<close> and \<^verbatim>\<open>["a","bc"]\<close> both hash to the CRC-64 of \<^verbatim>\<open>"abc"\<close>.
\<close>

theorem visit_string_raw_bytes:
  "visit w (fl, VString s) = Inr (w\<lparr>walker_w := Write (walker_w w) (bytes_of_string s)\<rparr>)
   \<and> bytes_of_string [] = []
   \<and> bytes_of_string (ch # s) = of_nat (of_char ch) # bytes_of_string s
   \<and> map (\<lambda>b. char_of (unat b)) (bytes_of_string s) = s
   \<and> bytes_of_string ''abc'' = [97, 98, 99]
   \<and> Hash (VString s) None = Inr (crc64_update 0 (bytes_of_string s))
   \<and> Hash (VString ''foo'') None = Inr 10965392271467943256
   \<and> Hash (VSlice [VString (a @ b), VString c]) None
     = Hash (VSlice [VString a, VString (b @ c)]) None
   \<and> VSlice [VString ''ab'', VString ''c''] \<noteq> VSlice [VString ''a'', VString ''bc'']
   \<and> Hash (VSlice [VString ''ab'', VString ''c'']) None = Inr 3231342946509354535
   \<and> Hash (VSlice [VString ''a'', VString ''bc'']) None = Inr 3231342946509354535"
proof -
  have 1: "Hash (VSlice [VString (a @ b), VString c]) None
     = Hash (VSlice [VString a, VString (b @ c)]) None"
    by (simp add: crc64_New_def crc64_update_append bytes_of_string_def ValueOf_def flag_ro_def)
  have 2: "Hash (VString s) None = Inr (crc64_update 0 (bytes_of_string s))"
    by (simp add: crc64_New_def ValueOf_def)
  have 3: "Hash (VString ''foo'') None = Inr 10965392271467943256"
    "Hash (VSlice [VString ''ab'', VString ''c'']) None = Inr 3231342946509354535"
    "Hash (VSlice [VString ''a'', VString ''bc'']) None = Inr 3231342946509354535"
    by (simp_all add: hash_eval)
  have 4: "bytes_of_string ''abc'' = [97, 98, 99]"
    "bytes_of_string (ch # s) = of_nat (of_char ch) # bytes_of_string s"
    by (simp_all add: bytes_of_string_def)
  show ?thesis
    using 1 2 3 4 bytes_of_string_roundtrip [of s] by (simp add: bytes_of_string_def)
qed

text \<open>
  C10. The digests that order the keys of a map come from \<^verbatim>\<open>sortValues\<close>, which hashes each
  key with default options (CRC-64) and, on a collision, with its own FNV hasher; it never
  sees the hasher of the caller. So the outcome of a walk is one error or one sequence of
  writes, whatever hasher the walker holds, and \<^verbatim>\<open>Hash\<close> with a caller-supplied hasher feeds
  that same sequence to it. For the keys \<^verbatim>\<open>"a"\<close> and \<^verbatim>\<open>"b"\<close> the CRC-64 order is \<^verbatim>\<open>a, b\<close> and the
  FNV order is \<^verbatim>\<open>b, a\<close>; with an FNV hasher in the options the map
  \<^verbatim>\<open>{"b": int8(2), "a": int8(1)}\<close> is still walked in the CRC-64 order \<^verbatim>\<open>a, 1, b, 2\<close>.
\<close>

theorem key_order_independent_of_caller_hasher:
  "(\<exists>r. \<forall>w. visit_sorted w (fl, v) =
            (case r of
               Inl err \<Rightarrow> Inl err
             | Inr chunks \<Rightarrow> Inr (w\<lparr>walker_w := foldl Write (walker_w w) chunks\<rparr>)))
   \<and> (\<exists>r. \<forall>h. Hash_sorted v (Some \<lparr>Hasher = Some h\<rparr>) =
            (case r of
               Inl err \<Rightarrow> Inl err
             | Inr chunks \<Rightarrow> Inr (Sum64 (foldl Write (Reset h) chunks))))
   \<and> visit_sorted w (fl, VMap es) =
       (case sortValues (map (\<lambda>e. (flag_ro fl, fst e)) es) of
          Inl err \<Rightarrow> Inl err
        | Inr idxs \<Rightarrow>
            for_each idxs
              (\<lambda>idx w.
                 if 0 \<le> idx \<and> nat idx < length es then
                   (case visit_sorted w (flag_ro fl, fst (es ! nat idx)) of
                      Inl err \<Rightarrow> Inl err
                    | Inr w \<Rightarrow> visit_sorted w (flag_ro fl, MapIndex es (fst (es ! nat idx))))
                 else Inl Panic) w)
   \<and> Hash_sorted (VString ''a'') None = Inr 3675645893302102789
   \<and> Hash_sorted (VString ''b'') None = Inr 8406248661285262385
   \<and> Hash_sorted (VString ''a'') (Some \<lparr>Hasher = Some fnv_New64\<rparr>) = Inr 12638153115695167422
   \<and> Hash_sorted (VString ''b'') (Some \<lparr>Hasher = Some fnv_New64\<rparr>) = Inr 12638153115695167421
   \<and> sortValues [ValueOf (VString ''b''), ValueOf (VString ''a'')] = Inr [1, 0]
   \<and> Hash_sorted (VMap [(VString ''b'', VInt8 2), (VString ''a'', VInt8 1)])
        (Some \<lparr>Hasher = Some fnv_New64\<rparr>) = Inr 3409263946218691803
   \<and> Hash_sorted (VSlice [VString ''a'', VInt8 1, VString ''b'', VInt8 2])
        (Some \<lparr>Hasher = Some fnv_New64\<rparr>) = Inr 3409263946218691803
   \<and> Hash_sorted (VSlice [VString ''b'', VInt8 2, VString ''a'', VInt8 1])
        (Some \<lparr>Hasher = Some fnv_New64\<rparr>) = Inr 2782155290210484955"
proof -
  have tr: "\<exists>r. \<forall>w. visit_sorted w (fl', v) =
            (case r of
               Inl err \<Rightarrow> Inl err
             | Inr chunks \<Rightarrow> Inr (w\<lparr>walker_w := foldl Write (walker_w w) chunks\<rparr>))" for fl'
    using visit_sorted_traced [of fl' v] unfolding traced_def writes_def .
  from tr [of RW] obtain r where
    r: "\<And>w. visit_sorted w (RW, v) =
            (case r of
               Inl err \<Rightarrow> Inl err
             | Inr chunks \<Rightarrow> Inr (w\<lparr>walker_w := foldl Write (walker_w w) chunks\<rparr>))"
    by blast
  have "\<forall>h. Hash_sorted v (Some \<lparr>Hasher = Some h\<rparr>) =
            (case r of
               Inl err \<Rightarrow> Inl err
             | Inr chunks \<Rightarrow> Inr (Sum64 (foldl Write (Reset h) chunks)))"
    by (cases r) (simp_all add: r ValueOf_def)
  then have hs: "\<exists>r. \<forall>h. Hash_sorted v (Some \<lparr>Hasher = Some h\<rparr>) =
            (case r of
               Inl err \<Rightarrow> Inl err
             | Inr chunks \<Rightarrow> Inr (Sum64 (foldl Write (Reset h) chunks)))"
    by blast
  have mp: "visit_sorted w (fl, VMap es) =
       (case sortValues (map (\<lambda>e. (flag_ro fl, fst e)) es) of
          Inl err \<Rightarrow> Inl err
        | Inr idxs \<Rightarrow>
            for_each idxs
              (\<lambda>idx w.
                 if 0 \<le> idx \<and> nat idx < length es then
                   (case visit_sorted w (flag_ro fl, fst (es ! nat idx)) of
                      Inl err \<Rightarrow> Inl err
                    | Inr w \<Rightarrow> visit_sorted w (flag_ro fl, MapIndex es (fst (es ! nat idx))))
                 else Inl Panic) w)"
    by (simp add: sortValues_def Let_def cong: sum.case_cong if_cong for_each_cong)
  have ev: "Hash_sorted (VString ''a'') None = Inr 3675645893302102789"
    "Hash_sorted (VString ''b'') None = Inr 8406248661285262385"
    "Hash_sorted (VString ''a'') (Some \<lparr>Hasher = Some fnv_New64\<rparr>) = Inr 12638153115695167422"
    "Hash_sorted (VString ''b'') (Some \<lparr>Hasher = Some fnv_New64\<rparr>) = Inr 12638153115695167421"
    "sortValues [ValueOf (VString ''b''), ValueOf (VString ''a'')] = Inr [1, 0]"
    "Hash_sorted (VMap [(VString ''b'', VInt8 2), (VString ''a'', VInt8 1)])
        (Some \<lparr>Hasher = Some fnv_New64\<rparr>) = Inr 3409263946218691803"
    "Hash_sorted (VSlice [VString ''a'', VInt8 1, VString ''b'', VInt8 2])
        (Some \<lparr>Hasher = Some fnv_New64\<rparr>) = Inr 3409263946218691803"
    "Hash_sorted (VSlice [VString ''b'', VInt8 2, VString ''a'', VInt8 1])
        (Some \<lparr>Hasher = Some fnv_New64\<rparr>) = Inr 2782155290210484955"
    by (simp_all add: hash_eval loop_eval sortValues_def)
  show ?thesis
    using tr [of fl] hs mp ev by (intro conjI)
qed






end
